theory Spec2Isabelle
  imports Complex_Main
begin

section \<open>Borehole log layout: data model\<close>

text \<open>
  The multi-page log of \<^verbatim>\<open>borehole_log_professional_dummy2.py\<close> draws a table of
  depth intervals, ten depth units per page. Python floats are modelled as exact reals:
  \<^verbatim>\<open>max\<close>, \<^verbatim>\<open>min\<close>, comparison and \<^verbatim>\<open>ceil\<close> are the same on both; where the rounding of
  sums and products decides a statement, the depth-to-y map is also given in double
  precision. The table is a parameter of every function here,
  where the source reads the module-level \<^verbatim>\<open>DUMMY_BOREHOLE_DATA\<close>.
\<close>

record row =
  Depth_Top :: real
  Depth_Base :: real
  Geology_Code :: string
  Description :: string

text \<open>One entry of the per-page list \<^verbatim>\<open>intervals\<close> (a dict in the source).\<close>

record segment =
  orig_idx :: nat
  seg_Depth_Top :: real
  seg_Depth_Base :: real
  seg_Geology_Code :: string
  seg_Description :: string
  orig_Depth_Top :: real
  orig_Depth_Base :: real

datatype error = ValueError

text \<open>The text of a label: a literal string, \<^verbatim>\<open>f"{x:.2f}"\<close> of a float, or \<^verbatim>\<open>f"{n}"\<close> of an int.\<close>

datatype label = Str string | Fixed2 real | IntStr int

text \<open>
  The calls made on \<^verbatim>\<open>log_ax\<close>: \<^verbatim>\<open>add_patch(Rectangle((x, y), w, h))\<close>,
  \<^verbatim>\<open>text(x, y, s)\<close> and \<^verbatim>\<open>plot([x0, x1], [y0, y1])\<close>.
\<close>

datatype prim =
    Patch real real real real
  | Text real real label
  | Plot real real real real

definition DUMMY_BOREHOLE_DATA :: "row list" where
  "DUMMY_BOREHOLE_DATA =
    [\<lparr>Depth_Top = 0, Depth_Base = 0.5, Geology_Code = ''101'',
       Description = ''Dark brown silty TOPSOIL with roots''\<rparr>,
     \<lparr>Depth_Top = 0.5, Depth_Base = 2, Geology_Code = ''102'',
       Description = ''Brown MADE GROUND with brick fragments''\<rparr>,
     \<lparr>Depth_Top = 2, Depth_Base = 4.5, Geology_Code = ''201'',
       Description = ''Firm brown CLAY, slightly silty''\<rparr>,
     \<lparr>Depth_Top = 4.5, Depth_Base = 7, Geology_Code = ''401'',
       Description = ''Medium dense fine SAND, some gravel''\<rparr>,
     \<lparr>Depth_Top = 7, Depth_Base = 10, Geology_Code = ''504'',
       Description = ''Dense sandy GRAVEL, occasional cobbles''\<rparr>,
     \<lparr>Depth_Top = 10, Depth_Base = 15, Geology_Code = ''801'',
       Description = ''Weathered MUDSTONE, grey, fissured''\<rparr>]"

section \<open>Pages and the depth-to-y map\<close>

definition page_top :: "int \<Rightarrow> real" where
  "page_top page_num = real_of_int ((page_num - 1) * 10)"

definition page_bot :: "int \<Rightarrow> real" where
  "page_bot page_num = real_of_int (page_num * 10)"

definition bottom_line_y :: real where
  "bottom_line_y = 0.025"

definition page_depth_range :: real where
  "page_depth_range = 10"

text \<open>
  The closure \<^verbatim>\<open>depth_to_y\<close>, with the page it is bound to as first argument: its
  expression in exact arithmetic. The same expression with the roundings of the source
  is \<open>depth_to_y_double\<close> below.
\<close>

definition depth_to_y :: "int \<Rightarrow> real \<Rightarrow> real" where
  "depth_to_y page_num depth =
     1 - (1 - bottom_line_y) * ((depth - page_top page_num) / page_depth_range)"

section \<open>The depth-to-y map in double precision\<close>








section \<open>Page count\<close>

text \<open>\<^verbatim>\<open>Series.max()\<close>: the largest entry, NaN (here \<open>None\<close>) on an empty column.\<close>

fun series_max :: "real list \<Rightarrow> real option" where
  "series_max [] = None"
| "series_max (x # xs) = Some (fold max xs x)"

text \<open>\<^verbatim>\<open>DUMMY_BOREHOLE_DATA["Depth_Base"].max()\<close>, the value of \<^verbatim>\<open>log_depth\<close>.\<close>

definition Depth_Base_max :: "row list \<Rightarrow> real option" where
  "Depth_Base_max rows = series_max (map Depth_Base rows)"

text \<open>
  \<^verbatim>\<open>int(np.ceil(log_depth / 10.0))\<close>; \<^verbatim>\<open>int\<close> of NaN raises \<^verbatim>\<open>ValueError\<close>.
\<close>

definition last_borehole_page :: "row list \<Rightarrow> error + int" where
  "last_borehole_page rows =
     (case Depth_Base_max rows of
        None \<Rightarrow> Inl ValueError
      | Some d \<Rightarrow> Inr (\<lceil>d / 10\<rceil>))"

section \<open>Clipping intervals to a page\<close>

text \<open>
  The loop over \<^verbatim>\<open>DUMMY_BOREHOLE_DATA.iterrows()\<close> that fills \<^verbatim>\<open>intervals\<close>; the second
  argument is the index of the first row of the list.
\<close>

fun intervals_loop :: "int \<Rightarrow> nat \<Rightarrow> row list \<Rightarrow> segment list" where
  "intervals_loop page_num i [] = []"
| "intervals_loop page_num i (r # rs) =
     (let d1 = Depth_Top r; d2 = Depth_Base r in
      if d2 \<le> page_top page_num \<or> d1 \<ge> page_bot page_num
      then intervals_loop page_num (Suc i) rs
      else \<lparr>orig_idx = i,
            seg_Depth_Top = max d1 (page_top page_num),
            seg_Depth_Base = min d2 (page_bot page_num),
            seg_Geology_Code = Geology_Code r,
            seg_Description = Description r,
            orig_Depth_Top = d1,
            orig_Depth_Base = d2\<rparr> # intervals_loop page_num (Suc i) rs)"

definition page_intervals :: "row list \<Rightarrow> int \<Rightarrow> segment list" where
  "page_intervals rows page_num = intervals_loop page_num 0 rows"

text \<open>The invariants of the interval model, as hypotheses of the theorems below.\<close>

definition valid_interval :: "row \<Rightarrow> bool" where
  "valid_interval r \<longleftrightarrow> 0 \<le> Depth_Top r \<and> Depth_Top r < Depth_Base r"

fun contiguous :: "row list \<Rightarrow> bool" where
  "contiguous [] = True"
| "contiguous [r] = True"
| "contiguous (r # s # rs) = (Depth_Top s = Depth_Base r \<and> contiguous (s # rs))"

definition seg_span :: "segment \<Rightarrow> real" where
  "seg_span s = seg_Depth_Base s - seg_Depth_Top s"

text \<open>The segment the loop builds for row \<open>r\<close> with index \<open>i\<close> on a page.\<close>

definition clip :: "int \<Rightarrow> nat \<Rightarrow> row \<Rightarrow> segment" where
  "clip page_num i r =
     \<lparr>orig_idx = i,
      seg_Depth_Top = max (Depth_Top r) (page_top page_num),
      seg_Depth_Base = min (Depth_Base r) (page_bot page_num),
      seg_Geology_Code = Geology_Code r,
      seg_Description = Description r,
      orig_Depth_Top = Depth_Top r,
      orig_Depth_Base = Depth_Base r\<rparr>"


section \<open>Drawing one page\<close>

definition log_col_widths :: "real list" where
  "log_col_widths = [0.05, 0.10, 0.06, 0.12, 0.08, 0.08, 0.10, 0.37, 0.04]"

text \<open>\<^verbatim>\<open>log_col_x = [0]; for w in log_col_widths: log_col_x.append(log_col_x[-1] + w)\<close>\<close>

definition log_col_x :: "real list" where
  "log_col_x = fold (\<lambda>w xs. xs @ [last xs + w]) log_col_widths [0]"

definition legend_left :: real where "legend_left = log_col_x ! 6"
definition legend_width :: real where "legend_width = log_col_widths ! 6"
definition desc_left :: real where "desc_left = log_col_x ! 7"
definition desc_width :: real where "desc_width = log_col_widths ! 7"
definition depth_left :: real where "depth_left = log_col_x ! 4"
definition depth_width :: real where "depth_width = log_col_widths ! 4"
definition level_left :: real where "level_left = log_col_x ! 5"
definition level_width :: real where "level_width = log_col_widths ! 5"
definition ruler_left :: real where "ruler_left = log_col_x ! 8"
definition ruler_width :: real where "ruler_width = log_col_widths ! 8"
definition ruler_x :: real where "ruler_x = ruler_left"
definition main_tick_length :: real where "main_tick_length = ruler_width * 0.5"
definition sub_tick_length :: real where "sub_tick_length = ruler_width * 0.25"
definition ground_level :: real where "ground_level = 62.5"

text \<open>
  The body of \<^verbatim>\<open>for j, seg in enumerate(intervals)\<close>, one definition per block: the
  lithology bar with its two texts, the top labels, the base labels, the divider.
\<close>

definition y_base_clipped :: "real \<Rightarrow> int \<Rightarrow> segment \<Rightarrow> real" where
  "y_base_clipped log_depth page_num seg =
     (let y_base = depth_to_y page_num (seg_Depth_Base seg);
          borehole_end_depth = min log_depth (page_top page_num + 10);
          borehole_end_y = depth_to_y page_num borehole_end_depth
      in max y_base borehole_end_y)"

definition bar_prims :: "real \<Rightarrow> int \<Rightarrow> segment \<Rightarrow> prim list" where
  "bar_prims log_depth page_num seg =
     (let y_top = depth_to_y page_num (seg_Depth_Top seg);
          y_clip = y_base_clipped log_depth page_num seg
      in if y_top > y_clip
         then (let y_center = (y_top + y_clip) / 2
               in [Patch legend_left y_clip legend_width (y_top - y_clip),
                   Text (legend_left + legend_width / 2) y_center (Str (seg_Geology_Code seg)),
                   Text (desc_left + desc_width * 0.02) y_center (Str (seg_Description seg))])
         else [])"

definition show_top :: "segment \<Rightarrow> bool" where
  "show_top seg \<longleftrightarrow> \<bar>seg_Depth_Top seg - orig_Depth_Top seg\<bar> < 0.000001"

definition show_base :: "segment \<Rightarrow> bool" where
  "show_base seg \<longleftrightarrow> \<bar>seg_Depth_Base seg - orig_Depth_Base seg\<bar> < 0.000001"

definition top_label_prims :: "int \<Rightarrow> segment \<Rightarrow> prim list" where
  "top_label_prims page_num seg =
     (let y_top = depth_to_y page_num (seg_Depth_Top seg)
      in if show_top seg \<and> seg_Depth_Top seg > 0
         then [Text (depth_left + depth_width / 2) y_top (Fixed2 (seg_Depth_Top seg)),
               Text (level_left + level_width / 2) y_top
                 (Fixed2 (ground_level - seg_Depth_Top seg))]
         else [])"

text \<open>
  The branch on \<^verbatim>\<open>is_borehole_end\<close> assigns \<^verbatim>\<open>base_y = y_base\<close> again, so the label sits
  at \<^verbatim>\<open>y_base\<close> either way.
\<close>

definition base_label_prims :: "real \<Rightarrow> int \<Rightarrow> segment \<Rightarrow> prim list" where
  "base_label_prims log_depth page_num seg =
     (let y_base = depth_to_y page_num (seg_Depth_Base seg)
      in if show_base seg
         then (let is_borehole_end = (\<bar>seg_Depth_Base seg - log_depth\<bar> < 0.000001);
                   base_y = (if is_borehole_end then y_base else y_base)
               in [Text (depth_left + depth_width / 2) base_y (Fixed2 (seg_Depth_Base seg)),
                   Text (level_left + level_width / 2) base_y
                     (Fixed2 (ground_level - seg_Depth_Base seg))])
         else [])"

definition divider_prims :: "int \<Rightarrow> nat \<Rightarrow> segment \<Rightarrow> prim list" where
  "divider_prims page_num j seg =
     (let y_top = depth_to_y page_num (seg_Depth_Top seg)
      in if j > 0 then [Plot legend_left (desc_left + desc_width) y_top y_top] else [])"

definition draw_segment :: "real \<Rightarrow> int \<Rightarrow> nat \<Rightarrow> segment \<Rightarrow> prim list" where
  "draw_segment log_depth page_num j seg =
     bar_prims log_depth page_num seg @ top_label_prims page_num seg
     @ base_label_prims log_depth page_num seg @ divider_prims page_num j seg"

fun draw_intervals :: "real \<Rightarrow> int \<Rightarrow> nat \<Rightarrow> segment list \<Rightarrow> prim list" where
  "draw_intervals log_depth page_num j [] = []"
| "draw_intervals log_depth page_num j (seg # segs) =
     draw_segment log_depth page_num j seg @ draw_intervals log_depth page_num (Suc j) segs"

text \<open>The closing line: at the end of the borehole if that is above the page bottom.\<close>

definition closing_line_y :: "real \<Rightarrow> int \<Rightarrow> real" where
  "closing_line_y log_depth page_num =
     (let borehole_end_depth = min log_depth (page_top page_num + 10)
      in if borehole_end_depth < page_top page_num + 10
         then depth_to_y page_num borehole_end_depth
         else bottom_line_y)"

definition closing_line :: "real \<Rightarrow> int \<Rightarrow> prim list" where
  "closing_line log_depth page_num =
     [Plot legend_left (desc_left + desc_width)
        (closing_line_y log_depth page_num) (closing_line_y log_depth page_num)]"

text \<open>The ruler: \<^verbatim>\<open>for marker in range(marker_start, marker_end + 1)\<close>, then the subticks.\<close>

definition marker_start :: "int \<Rightarrow> int" where
  "marker_start page_num = (page_num - 1) * 10"

definition marker_end :: "int \<Rightarrow> int" where
  "marker_end page_num = page_num * 10"

definition y_marker :: "int \<Rightarrow> int \<Rightarrow> real" where
  "y_marker page_num marker =
     1 - (1 - bottom_line_y) * (real_of_int (marker - marker_start page_num) / 10)"

definition main_marker :: "int \<Rightarrow> int \<Rightarrow> prim list" where
  "main_marker page_num marker =
     [Plot ruler_x (ruler_x + main_tick_length)
        (y_marker page_num marker) (y_marker page_num marker),
      Text (ruler_x + main_tick_length + ruler_width * 0.1) (y_marker page_num marker)
        (IntStr marker)]"

definition main_markers :: "int \<Rightarrow> prim list" where
  "main_markers page_num =
     concat (map (main_marker page_num) [marker_start page_num..marker_end page_num])"

definition y_subtick :: "int \<Rightarrow> int \<Rightarrow> real" where
  "y_subtick i sub =
     1 - (1 - bottom_line_y) * ((real_of_int i + real_of_int sub / 10) / 10)"

definition subtick :: "int \<Rightarrow> int \<Rightarrow> prim" where
  "subtick i sub = Plot ruler_x (ruler_x + sub_tick_length) (y_subtick i sub) (y_subtick i sub)"

definition subticks :: "prim list" where
  "subticks = concat (map (\<lambda>i. map (subtick i) [1..9]) [0..9])"

definition draw_page :: "row list \<Rightarrow> real \<Rightarrow> int \<Rightarrow> prim list" where
  "draw_page rows log_depth page_num =
     Patch 0 0 1 1
     # map (\<lambda>x_val. Plot x_val x_val 0 1) (butlast (tl log_col_x))
     @ [Plot 0 1 1 1]
     @ draw_intervals log_depth page_num 0 (page_intervals rows page_num)
     @ closing_line log_depth page_num
     @ [Plot ruler_x ruler_x 0 1]
     @ main_markers page_num
     @ subticks"

text \<open>
  The page loop \<^verbatim>\<open>for page_num in range(1, last_borehole_page + 1)\<close>: each page is
  saved under its number.
\<close>

definition plot_dummy_borehole_log :: "row list \<Rightarrow> error + (int \<times> prim list) list" where
  "plot_dummy_borehole_log rows =
     (case Depth_Base_max rows of
        None \<Rightarrow> Inl ValueError
      | Some d \<Rightarrow>
          (case last_borehole_page rows of
             Inl e \<Rightarrow> Inl e
           | Inr n \<Rightarrow> Inr (map (\<lambda>page_num. (page_num, draw_page rows d page_num)) [1..n])))"

text \<open>The length of the part of the interval from \<open>d1\<close> to \<open>d2\<close> that lies above depth \<open>x\<close>.\<close>

definition above :: "real \<Rightarrow> real \<Rightarrow> real \<Rightarrow> real" where
  "above d1 d2 x = min d2 (max d1 x) - d1"

section \<open>The text wrapper\<close>

text \<open>
  \<^verbatim>\<open>_wrap_text\<close> of \<^verbatim>\<open>borehole_log_professional.py\<close>. A Python \<^verbatim>\<open>str\<close> is modelled as a
  \<open>string\<close>, one \<open>char\<close> per code point below 256; \<open>is_space\<close> holds of the code points
  that \<^verbatim>\<open>str.split()\<close> treats as whitespace in that range.
\<close>

definition is_space :: "char \<Rightarrow> bool" where
  "is_space c \<longleftrightarrow>
     c \<in> {CHR 0x09, CHR 0x0A, CHR 0x0B, CHR 0x0C, CHR 0x0D, CHR 0x1C, CHR 0x1D, CHR 0x1E,
          CHR 0x1F, CHR 0x20, CHR 0x85, CHR 0xA0}"

text \<open>
  \<^verbatim>\<open>text.split()\<close>: the maximal runs of characters that are not whitespace. The first
  argument is the word being read.
\<close>

fun split_loop :: "string \<Rightarrow> string \<Rightarrow> string list" where
  "split_loop word [] = (if word = [] then [] else [word])"
| "split_loop word (c # cs) =
     (if is_space c
      then (if word = [] then split_loop [] cs else word # split_loop [] cs)
      else split_loop (word @ [c]) cs)"

definition py_split :: "string \<Rightarrow> string list" where
  "py_split text = split_loop [] text"

text \<open>\<^verbatim>\<open>sep.join(xs)\<close>\<close>

fun str_join :: "string \<Rightarrow> string list \<Rightarrow> string" where
  "str_join sep [] = []"
| "str_join sep [x] = x"
| "str_join sep (x # y # ys) = x @ sep @ str_join sep (y # ys)"

text \<open>
  The loop \<^verbatim>\<open>for word in words\<close> with its three variables, and the flush of the last
  line after it.
\<close>

fun wrap_loop :: "int \<Rightarrow> string list \<Rightarrow> string list \<Rightarrow> int \<Rightarrow> string list \<Rightarrow> string list" where
  "wrap_loop max_chars lines current_line current_length [] =
     (if current_line \<noteq> [] then lines @ [str_join '' '' current_line] else lines)"
| "wrap_loop max_chars lines current_line current_length (word # words) =
     (if current_length + int (length word) + 1 \<le> max_chars
      then wrap_loop max_chars lines (current_line @ [word])
             (current_length + int (length word) + 1) words
      else wrap_loop max_chars
             (if current_line \<noteq> [] then lines @ [str_join '' '' current_line] else lines)
             [word] (int (length word)) words)"

text \<open>The list \<^verbatim>\<open>lines\<close> at the end of the function, when the text is not returned as it is.\<close>

definition wrap_lines :: "string \<Rightarrow> int \<Rightarrow> string list" where
  "wrap_lines text max_chars = wrap_loop max_chars [] [] 0 (py_split text)"

text \<open>The function itself (an Isabelle name cannot begin with an underscore).\<close>

definition wrap_text :: "string \<Rightarrow> int \<Rightarrow> string" where
  "wrap_text text max_chars =
     (if int (length text) \<le> max_chars then text
      else str_join [CHR 0x0A] (wrap_lines text max_chars))"

text \<open>
  The result as the sequence of lines the specification speaks of: the text itself when
  it is returned unchanged, else the list that the function joins with newlines.
\<close>

definition wrap :: "string \<Rightarrow> int \<Rightarrow> string list" where
  "wrap text max_chars =
     (if int (length text) \<le> max_chars then [text] else wrap_lines text max_chars)"

text \<open>
  The same loop with every line kept as its list of words, the variables \<^verbatim>\<open>current_line\<close>
  and \<^verbatim>\<open>current_length\<close> as in the source; \<open>wrap_loop\<close> joins these lists with blanks.
\<close>

fun wrap_groups :: "int \<Rightarrow> string list \<Rightarrow> int \<Rightarrow> string list \<Rightarrow> string list list" where
  "wrap_groups max_chars current_line current_length [] =
     (if current_line = [] then [] else [current_line])"
| "wrap_groups max_chars current_line current_length (word # words) =
     (if current_length + int (length word) + 1 \<le> max_chars
      then wrap_groups max_chars (current_line @ [word])
             (current_length + int (length word) + 1) words
      else (if current_line = [] then [] else [current_line])
           @ wrap_groups max_chars [word] (int (length word)) words)"

text \<open>
  The greedy rule in the words of the specification, where \<open>current_length\<close> is the length
  of the current line (0 for the empty line): a word joins the current line while
  \<open>current_length + len(word) + 1 \<le> max_chars\<close>; otherwise the current line is flushed and
  a new line starts with that word. Each line is given as its list of words.
\<close>

fun greedy_rule :: "int \<Rightarrow> string list \<Rightarrow> string list \<Rightarrow> string list list" where
  "greedy_rule max_chars current_line [] =
     (if current_line = [] then [] else [current_line])"
| "greedy_rule max_chars current_line (word # words) =
     (if int (length (str_join '' '' current_line)) + int (length word) + 1 \<le> max_chars
      then greedy_rule max_chars (current_line @ [word]) words
      else (if current_line = [] then [] else [current_line])
           @ greedy_rule max_chars [word] words)"

text \<open>A word as \<^verbatim>\<open>split()\<close> yields it: not empty, no whitespace in it.\<close>

definition is_word :: "string \<Rightarrow> bool" where
  "is_word w \<longleftrightarrow> w \<noteq> [] \<and> list_all (\<lambda>c. \<not> is_space c) w"

section \<open>The depth-to-y map at the ends of a page\<close>






































section \<open>Facts about the clipping loop and the page count\<close>

lemma page_top_lt_bot: "page_top p < page_bot p"
  by (simp add: page_top_def page_bot_def)

lemma intervals_loop_idx_ge: "s \<in> set (intervals_loop p i rs) \<Longrightarrow> i \<le> orig_idx s"
  by (induction rs arbitrary: i) (auto simp: Let_def split: if_splits dest: Suc_leD)

lemma intervals_loop_idx_lt:
  "s \<in> set (intervals_loop p i rs) \<Longrightarrow> orig_idx s < i + length rs"
  by (induction rs arbitrary: i) (fastforce simp: Let_def split: if_splits)+

lemma intervals_loop_filter:
  "k < length rs \<Longrightarrow>
   filter (\<lambda>s. orig_idx s = i + k) (intervals_loop p i rs) =
     (if Depth_Base (rs ! k) \<le> page_top p \<or> Depth_Top (rs ! k) \<ge> page_bot p
      then [] else [clip p (i + k) (rs ! k)])"
proof (induction rs arbitrary: i k)
  case Nil
  then show ?case by simp
next
  case (Cons r rs)
  have none: "filter (\<lambda>s. orig_idx s = i) (intervals_loop p (Suc i) rs) = []"
  proof -
    have "\<And>s. s \<in> set (intervals_loop p (Suc i) rs) \<Longrightarrow> orig_idx s \<noteq> i"
      using intervals_loop_idx_ge [of _ p "Suc i" rs] by fastforce
    then show ?thesis by (simp add: filter_empty_conv)
  qed
  show ?case
  proof (cases k)
    case 0
    then show ?thesis using none by (simp add: Let_def clip_def)
  next
    case (Suc k')
    with Cons.prems have "k' < length rs" by simp
    from Cons.IH [OF this, of "Suc i"] Suc show ?thesis
      by (simp add: Let_def)
  qed
qed

lemma intervals_loop_mem:
  "s \<in> set (intervals_loop p i rs) \<Longrightarrow>
   \<exists>r \<in> set rs. s = clip p (orig_idx s) r
      \<and> \<not> (Depth_Base r \<le> page_top p \<or> Depth_Top r \<ge> page_bot p)"
  by (induction rs arbitrary: i) (auto simp: Let_def clip_def split: if_splits)

lemma contiguous_chain:
  "contiguous rows \<Longrightarrow> \<forall>r \<in> set rows. valid_interval r \<Longrightarrow>
   sorted_wrt (\<lambda>a b. Depth_Base a \<le> Depth_Top b) rows"
proof (induction rows rule: contiguous.induct)
  case 1
  then show ?case by simp
next
  case (2 r)
  then show ?case by simp
next
  case (3 r s rs)
  then have tail: "sorted_wrt (\<lambda>a b. Depth_Base a \<le> Depth_Top b) (s # rs)"
    and eq: "Depth_Top s = Depth_Base r" and vs: "valid_interval s"
    by simp_all
  have "Depth_Base r \<le> Depth_Top x" if "x \<in> set rs" for x
  proof -
    from tail that have "Depth_Base s \<le> Depth_Top x" by simp
    with eq vs show ?thesis by (simp add: valid_interval_def)
  qed
  with tail eq show ?case by simp
qed

lemma clip_proper:
  assumes "valid_interval r"
    and "\<not> (Depth_Base r \<le> page_top p \<or> Depth_Top r \<ge> page_bot p)"
  shows "seg_Depth_Top (clip p i r) < seg_Depth_Base (clip p i r)"
  using assms page_top_lt_bot [of p] by (simp add: clip_def valid_interval_def)

lemma intervals_loop_chain:
  "sorted_wrt (\<lambda>a b. Depth_Base a \<le> Depth_Top b) rs \<Longrightarrow>
   sorted_wrt (\<lambda>a b. seg_Depth_Base a \<le> seg_Depth_Top b) (intervals_loop p i rs)"
proof (induction rs arbitrary: i)
  case Nil
  then show ?case by simp
next
  case (Cons r rs)
  have "min (Depth_Base r) (page_bot p) \<le> seg_Depth_Top s"
    if "s \<in> set (intervals_loop p (Suc i) rs)" for s
  proof -
    from intervals_loop_mem [OF that] obtain x where x: "x \<in> set rs"
      and s: "s = clip p (orig_idx s) x" by blast
    from Cons.prems x have "Depth_Base r \<le> Depth_Top x" by simp
    moreover have "seg_Depth_Top s = max (Depth_Top x) (page_top p)"
      by (subst s) (simp add: clip_def)
    ultimately show ?thesis by simp
  qed
  with Cons show ?case by (simp add: Let_def)
qed

lemma intervals_loop_proper:
  assumes "\<forall>r \<in> set rs. valid_interval r" and "s \<in> set (intervals_loop p i rs)"
  shows "seg_Depth_Top s < seg_Depth_Base s"
proof -
  from intervals_loop_mem [OF assms(2)] obtain r where "r \<in> set rs"
    and s: "s = clip p (orig_idx s) r"
    and ov: "\<not> (Depth_Base r \<le> page_top p \<or> Depth_Top r \<ge> page_bot p)" by blast
  with assms(1) have "seg_Depth_Top (clip p (orig_idx s) r) < seg_Depth_Base (clip p (orig_idx s) r)"
    by (intro clip_proper) auto
  with s show ?thesis by simp
qed

lemma chain_sorted_tops:
  assumes "sorted_wrt (\<lambda>a b. seg_Depth_Base a \<le> seg_Depth_Top b) segs"
    and "\<forall>s \<in> set segs. seg_Depth_Top s < seg_Depth_Base s"
  shows "sorted (map seg_Depth_Top segs)"
  using assms by (induction segs) (auto simp: less_le_trans less_imp_le dest!: bspec)

lemma series_max_Max: "xs \<noteq> [] \<Longrightarrow> series_max xs = Some (Max (set xs))"
proof (induction xs rule: series_max.induct)
  case 1
  then show ?case by simp
next
  case (2 x xs)
  show ?case using Max.set_eq_fold [of x xs] by simp
qed

lemma Depth_Base_max_Max:
  "rows \<noteq> [] \<Longrightarrow> Depth_Base_max rows = Some (Max (Depth_Base ` set rows))"
  by (simp add: Depth_Base_max_def series_max_Max)

lemma Depth_Base_max_ge:
  "Depth_Base_max rows = Some d \<Longrightarrow> r \<in> set rows \<Longrightarrow> Depth_Base r \<le> d"
  by (cases "rows = []") (auto simp: Depth_Base_max_Max)

lemma upto_snoc_nat: "[1..int (Suc n)] = [1..int n] @ [int n + 1]"
  using upto_rec2 [of 1 "int n + 1"] by (simp add: add.commute)

lemma page_span_above:
  assumes "i < length rows" and "Depth_Top (rows ! i) < Depth_Base (rows ! i)"
  shows "sum_list (map seg_span (filter (\<lambda>s. orig_idx s = i) (page_intervals rows p)))
         = above (Depth_Top (rows ! i)) (Depth_Base (rows ! i)) (page_bot p)
           - above (Depth_Top (rows ! i)) (Depth_Base (rows ! i)) (page_top p)"
proof -
  have "filter (\<lambda>s. orig_idx s = i) (page_intervals rows p) =
     (if Depth_Base (rows ! i) \<le> page_top p \<or> Depth_Top (rows ! i) \<ge> page_bot p
      then [] else [clip p i (rows ! i)])"
    using intervals_loop_filter [OF assms(1), of 0 p] by (simp add: page_intervals_def)
  then show ?thesis
    using assms(2) page_top_lt_bot [of p]
    by (auto simp: seg_span_def clip_def above_def min_def max_def)
qed

lemma telescope:
  assumes "i < length rows" and "Depth_Top (rows ! i) < Depth_Base (rows ! i)"
  shows "sum_list (map (\<lambda>p. sum_list (map seg_span
            (filter (\<lambda>s. orig_idx s = i) (page_intervals rows p)))) [1..int n])
         = above (Depth_Top (rows ! i)) (Depth_Base (rows ! i)) (page_bot (int n))
           - above (Depth_Top (rows ! i)) (Depth_Base (rows ! i)) 0"
proof (induction n)
  case 0
  then show ?case by (simp add: page_bot_def)
next
  case (Suc n)
  have "page_top (int (Suc n)) = page_bot (int n)"
    by (simp add: page_top_def page_bot_def)
  then show ?case
    using Suc page_span_above [OF assms, of "int (Suc n)"]
    by (simp only: upto_snoc_nat map_append sum_list_append list.map sum_list.Cons sum_list.Nil)
       (simp add: add.commute)
qed

lemma last_page_bounds:
  assumes "rows \<noteq> []" and "\<forall>r \<in> set rows. valid_interval r"
  obtains d where "Depth_Base_max rows = Some d" and "d = Max (Depth_Base ` set rows)"
    and "last_borehole_page rows = Inr \<lceil>d / 10\<rceil>" and "0 < d" and "1 \<le> \<lceil>d / 10\<rceil>"
    and "d \<le> page_bot \<lceil>d / 10\<rceil>"
proof -
  let ?d = "Max (Depth_Base ` set rows)"
  have d: "Depth_Base_max rows = Some ?d" using assms(1) by (rule Depth_Base_max_Max)
  from assms(1) obtain r where r: "r \<in> set rows" by (cases rows) auto
  with assms(2) have "0 < Depth_Base r" by (auto simp: valid_interval_def)
  also have "Depth_Base r \<le> ?d" using r by simp
  finally have pos: "0 < ?d" .
  then have "0 < \<lceil>?d / 10\<rceil>" by (simp add: ceiling_less_iff)
  then have one: "1 \<le> \<lceil>?d / 10\<rceil>" by simp
  have "?d / 10 \<le> real_of_int \<lceil>?d / 10\<rceil>" by (rule le_of_int_ceiling)
  then have "?d \<le> real_of_int \<lceil>?d / 10\<rceil> * 10" by linarith
  then have "?d \<le> page_bot \<lceil>?d / 10\<rceil>" by (simp add: page_bot_def)
  with d pos one show ?thesis
    by (intro that [of ?d]) (simp_all add: last_borehole_page_def)
qed

section \<open>One segment per overlapping interval\<close>

text \<open>
  C2. On every page, the segments built for the interval with index \<open>i\<close> are: exactly one
  if the interval's base is strictly below the page top and its top strictly above the
  page bottom (\<open>Depth_Base > page_top\<close> and \<open>Depth_Top < page_bot\<close>), none otherwise. That
  segment runs from \<open>max Depth_Top page_top\<close> to \<open>min Depth_Base page_bot\<close>. Every segment
  belongs to an interval of the table. For a contiguous table of valid intervals the
  page's segments are in ascending order of their tops and each ends before the next
  begins.
\<close>

theorem segments_per_page:
  "(\<forall>i < length rows.
      filter (\<lambda>s. orig_idx s = i) (page_intervals rows p) =
        (if Depth_Base (rows ! i) > page_top p \<and> Depth_Top (rows ! i) < page_bot p
         then [\<lparr>orig_idx = i,
                seg_Depth_Top = max (Depth_Top (rows ! i)) (page_top p),
                seg_Depth_Base = min (Depth_Base (rows ! i)) (page_bot p),
                seg_Geology_Code = Geology_Code (rows ! i),
                seg_Description = Description (rows ! i),
                orig_Depth_Top = Depth_Top (rows ! i),
                orig_Depth_Base = Depth_Base (rows ! i)\<rparr>]
         else [])
      \<and> (length (filter (\<lambda>s. orig_idx s = i) (page_intervals rows p)) = 1
           \<longleftrightarrow> Depth_Base (rows ! i) > page_top p \<and> Depth_Top (rows ! i) < page_bot p))
   \<and> (\<forall>s \<in> set (page_intervals rows p). orig_idx s < length rows)
   \<and> (contiguous rows \<and> (\<forall>r \<in> set rows. valid_interval r) \<longrightarrow>
        sorted (map seg_Depth_Top (page_intervals rows p))
        \<and> sorted_wrt (\<lambda>a b. seg_Depth_Base a \<le> seg_Depth_Top b) (page_intervals rows p))"
proof (intro conjI allI impI ballI)
  fix i assume i: "i < length rows"
  show f: "filter (\<lambda>s. orig_idx s = i) (page_intervals rows p) =
        (if Depth_Base (rows ! i) > page_top p \<and> Depth_Top (rows ! i) < page_bot p
         then [\<lparr>orig_idx = i,
                seg_Depth_Top = max (Depth_Top (rows ! i)) (page_top p),
                seg_Depth_Base = min (Depth_Base (rows ! i)) (page_bot p),
                seg_Geology_Code = Geology_Code (rows ! i),
                seg_Description = Description (rows ! i),
                orig_Depth_Top = Depth_Top (rows ! i),
                orig_Depth_Base = Depth_Base (rows ! i)\<rparr>]
         else [])"
    using intervals_loop_filter [OF i, of 0 p]
    by (simp add: page_intervals_def clip_def not_le)
  show "length (filter (\<lambda>s. orig_idx s = i) (page_intervals rows p)) = 1
           \<longleftrightarrow> Depth_Base (rows ! i) > page_top p \<and> Depth_Top (rows ! i) < page_bot p"
    by (subst f) simp
next
  fix s assume "s \<in> set (page_intervals rows p)"
  then show "orig_idx s < length rows"
    using intervals_loop_idx_lt [of s p 0 rows] by (simp add: page_intervals_def)
next
  assume a: "contiguous rows \<and> (\<forall>r \<in> set rows. valid_interval r)"
  then have "sorted_wrt (\<lambda>a b. Depth_Base a \<le> Depth_Top b) rows"
    by (simp add: contiguous_chain)
  then show c: "sorted_wrt (\<lambda>a b. seg_Depth_Base a \<le> seg_Depth_Top b) (page_intervals rows p)"
    by (simp add: page_intervals_def intervals_loop_chain)
  from a have "\<forall>s \<in> set (page_intervals rows p). seg_Depth_Top s < seg_Depth_Base s"
    using intervals_loop_proper [of rows _ p 0] by (auto simp: page_intervals_def)
  with c show "sorted (map seg_Depth_Top (page_intervals rows p))"
    by (rule chain_sorted_tops)
qed

theorem segments_per_page_witness:
  "contiguous DUMMY_BOREHOLE_DATA \<and> list_all valid_interval DUMMY_BOREHOLE_DATA
   \<and> 5 < length DUMMY_BOREHOLE_DATA
   \<and> filter (\<lambda>s. orig_idx s = 5) (page_intervals DUMMY_BOREHOLE_DATA 2) =
       [\<lparr>orig_idx = 5, seg_Depth_Top = 10, seg_Depth_Base = 15,
         seg_Geology_Code = ''801'', seg_Description = ''Weathered MUDSTONE, grey, fissured'',
         orig_Depth_Top = 10, orig_Depth_Base = 15\<rparr>]
   \<and> filter (\<lambda>s. orig_idx s = 5) (page_intervals DUMMY_BOREHOLE_DATA 1) = []
   \<and> list_all (\<lambda>s. orig_idx s < 6) (page_intervals DUMMY_BOREHOLE_DATA 1)
   \<and> sorted (map seg_Depth_Top (page_intervals DUMMY_BOREHOLE_DATA 1))
   \<and> sorted_wrt (\<lambda>a b. seg_Depth_Base a \<le> seg_Depth_Top b)
        (page_intervals DUMMY_BOREHOLE_DATA 1)"
proof -
  have h1: "contiguous DUMMY_BOREHOLE_DATA" by (simp add: DUMMY_BOREHOLE_DATA_def)
  have h2: "\<forall>r \<in> set DUMMY_BOREHOLE_DATA. valid_interval r"
    by (simp add: DUMMY_BOREHOLE_DATA_def valid_interval_def)
  have l: "length DUMMY_BOREHOLE_DATA = 6" by (simp add: DUMMY_BOREHOLE_DATA_def)
  have r5: "DUMMY_BOREHOLE_DATA ! 5 = \<lparr>Depth_Top = 10, Depth_Base = 15, Geology_Code = ''801'',
       Description = ''Weathered MUDSTONE, grey, fissured''\<rparr>"
    by (simp add: DUMMY_BOREHOLE_DATA_def)
  note t2 = segments_per_page [of DUMMY_BOREHOLE_DATA 2]
  note t1 = segments_per_page [of DUMMY_BOREHOLE_DATA 1]
  from t2 l have a: "filter (\<lambda>s. orig_idx s = 5) (page_intervals DUMMY_BOREHOLE_DATA 2) =
       [\<lparr>orig_idx = 5, seg_Depth_Top = 10, seg_Depth_Base = 15,
         seg_Geology_Code = ''801'', seg_Description = ''Weathered MUDSTONE, grey, fissured'',
         orig_Depth_Top = 10, orig_Depth_Base = 15\<rparr>]"
    by (simp add: r5 page_top_def page_bot_def)
  from t1 l have b: "filter (\<lambda>s. orig_idx s = 5) (page_intervals DUMMY_BOREHOLE_DATA 1) = []"
    by (simp add: r5 page_top_def page_bot_def)
  from t1 l h1 h2 have c: "(\<forall>s \<in> set (page_intervals DUMMY_BOREHOLE_DATA 1). orig_idx s < 6)
   \<and> sorted (map seg_Depth_Top (page_intervals DUMMY_BOREHOLE_DATA 1))
   \<and> sorted_wrt (\<lambda>a b. seg_Depth_Base a \<le> seg_Depth_Top b)
        (page_intervals DUMMY_BOREHOLE_DATA 1)"
    by simp
  from h1 h2 l a b c show ?thesis by (simp add: list_all_iff)
qed

section \<open>The segments cover every interval once\<close>

text \<open>
  C1. For a non-empty, contiguous table of valid intervals (\<open>0 \<le> Depth_Top < Depth_Base\<close>,
  each top equal to the base before it) the page loop runs over pages \<open>1..n\<close>, and for
  every interval the spans \<open>seg_Depth_Base - seg_Depth_Top\<close> of its segments, summed over
  all pages, give \<open>Depth_Base - Depth_Top\<close>. On each page no depth lies in two segments
  (a segment covers the depths from its top up to, not including, its base).
\<close>

theorem coverage:
  assumes "rows \<noteq> []" and "contiguous rows" and "\<forall>r \<in> set rows. valid_interval r"
  shows "\<exists>n. last_borehole_page rows = Inr n
     \<and> (\<forall>i < length rows.
           sum_list (map (\<lambda>p. sum_list (map seg_span
              (filter (\<lambda>s. orig_idx s = i) (page_intervals rows p)))) [1..n])
           = Depth_Base (rows ! i) - Depth_Top (rows ! i))
     \<and> (\<forall>p \<in> set [1..n]. \<forall>j k x.
           j < k \<and> k < length (page_intervals rows p)
           \<and> seg_Depth_Top (page_intervals rows p ! j) \<le> x
           \<and> x < seg_Depth_Base (page_intervals rows p ! j)
           \<longrightarrow> \<not> (seg_Depth_Top (page_intervals rows p ! k) \<le> x
                  \<and> x < seg_Depth_Base (page_intervals rows p ! k)))"
proof -
  from last_page_bounds [OF assms(1,3)] obtain d where d: "Depth_Base_max rows = Some d"
    and n: "last_borehole_page rows = Inr \<lceil>d / 10\<rceil>" and one: "1 \<le> \<lceil>d / 10\<rceil>"
    and bot: "d \<le> page_bot \<lceil>d / 10\<rceil>" by blast
  let ?n = "\<lceil>d / 10\<rceil>"
  have sums: "sum_list (map (\<lambda>p. sum_list (map seg_span
              (filter (\<lambda>s. orig_idx s = i) (page_intervals rows p)))) [1..?n])
           = Depth_Base (rows ! i) - Depth_Top (rows ! i)" if i: "i < length rows" for i
  proof -
    from i have mem: "rows ! i \<in> set rows" by simp
    with assms(3) have v: "0 \<le> Depth_Top (rows ! i)" "Depth_Top (rows ! i) < Depth_Base (rows ! i)"
      by (auto simp: valid_interval_def)
    from Depth_Base_max_ge [OF d mem] bot have le: "Depth_Base (rows ! i) \<le> page_bot ?n" by simp
    from one have nn: "int (nat ?n) = ?n" by simp
    from telescope [OF i v(2), of "nat ?n"] v le show ?thesis
      by (simp only: nn) (simp add: above_def)
  qed
  have disj: "\<not> (seg_Depth_Top (page_intervals rows p ! k) \<le> x
                  \<and> x < seg_Depth_Base (page_intervals rows p ! k))"
    if "j < k" "k < length (page_intervals rows p)"
       "seg_Depth_Top (page_intervals rows p ! j) \<le> x"
       "x < seg_Depth_Base (page_intervals rows p ! j)" for p j k x
  proof -
    have "sorted_wrt (\<lambda>a b. seg_Depth_Base a \<le> seg_Depth_Top b) (page_intervals rows p)"
      using assms(2,3) by (simp add: page_intervals_def intervals_loop_chain contiguous_chain)
    with that(1,2) have "seg_Depth_Base (page_intervals rows p ! j)
        \<le> seg_Depth_Top (page_intervals rows p ! k)"
      by (simp add: sorted_wrt_iff_nth_less)
    with that(4) show ?thesis by simp
  qed
  from n sums disj show ?thesis by blast
qed

theorem coverage_witness:
  "[\<lparr>Depth_Top = 0, Depth_Base = 7.5, Geology_Code = ''201'', Description = ''CLAY''\<rparr>,
    \<lparr>Depth_Top = 7.5, Depth_Base = 23, Geology_Code = ''801'', Description = ''MUDSTONE''\<rparr>] \<noteq> []
   \<and> contiguous
     [\<lparr>Depth_Top = 0, Depth_Base = 7.5, Geology_Code = ''201'', Description = ''CLAY''\<rparr>,
      \<lparr>Depth_Top = 7.5, Depth_Base = 23, Geology_Code = ''801'', Description = ''MUDSTONE''\<rparr>]
   \<and> list_all valid_interval
     [\<lparr>Depth_Top = 0, Depth_Base = 7.5, Geology_Code = ''201'', Description = ''CLAY''\<rparr>,
      \<lparr>Depth_Top = 7.5, Depth_Base = 23, Geology_Code = ''801'', Description = ''MUDSTONE''\<rparr>]
   \<and> last_borehole_page
     [\<lparr>Depth_Top = 0, Depth_Base = 7.5, Geology_Code = ''201'', Description = ''CLAY''\<rparr>,
      \<lparr>Depth_Top = 7.5, Depth_Base = 23, Geology_Code = ''801'', Description = ''MUDSTONE''\<rparr>]
     = Inr 3
   \<and> sum_list (map (\<lambda>p. sum_list (map seg_span (filter (\<lambda>s. orig_idx s = 1) (page_intervals
     [\<lparr>Depth_Top = 0, Depth_Base = 7.5, Geology_Code = ''201'', Description = ''CLAY''\<rparr>,
      \<lparr>Depth_Top = 7.5, Depth_Base = 23, Geology_Code = ''801'', Description = ''MUDSTONE''\<rparr>]
      p)))) [1..3]) = 23 - 7.5"
proof -
  let ?rows = "[\<lparr>Depth_Top = 0, Depth_Base = 7.5, Geology_Code = ''201'', Description = ''CLAY''\<rparr>,
      \<lparr>Depth_Top = 7.5, Depth_Base = 23, Geology_Code = ''801'', Description = ''MUDSTONE''\<rparr>]"
  have h1: "?rows \<noteq> []" by simp
  have h2: "contiguous ?rows" by simp
  have h3: "\<forall>r \<in> set ?rows. valid_interval r" by (simp add: valid_interval_def)
  have n: "last_borehole_page ?rows = Inr 3"
    by (simp add: last_borehole_page_def Depth_Base_max_def ceiling_eq_iff)
  from coverage [OF h1 h2 h3] n have
    "\<forall>i < length ?rows. sum_list (map (\<lambda>p. sum_list (map seg_span
        (filter (\<lambda>s. orig_idx s = i) (page_intervals ?rows p)))) [1..3])
      = Depth_Base (?rows ! i) - Depth_Top (?rows ! i)"
    by auto
  from this [rule_format, of 1] h1 h2 h3 n show ?thesis by (simp add: list_all_iff)
qed

section \<open>The number of pages\<close>

text \<open>
  C3. For a non-empty table of valid intervals the pages drawn are numbered \<open>1, 2, \<dots>\<close> up
  to the ceiling of the largest base depth divided by the page span 10, so there are that
  many; when the largest base depth is \<open>10 * k\<close> there are exactly \<open>k\<close> pages. The
  instances after the theorem are the largest base depths 15 and 20: two pages each.
\<close>

theorem page_count:
  assumes "rows \<noteq> []" and "\<forall>r \<in> set rows. valid_interval r"
  shows "\<exists>pages. plot_dummy_borehole_log rows = Inr pages
     \<and> map fst pages = [1..\<lceil>Max (Depth_Base ` set rows) / 10\<rceil>]
     \<and> int (length pages) = \<lceil>Max (Depth_Base ` set rows) / 10\<rceil>
     \<and> (\<forall>k. Max (Depth_Base ` set rows) = real_of_int k * 10 \<longrightarrow> int (length pages) = k)"
proof -
  from last_page_bounds [OF assms] obtain d where d: "Depth_Base_max rows = Some d"
    and dm: "d = Max (Depth_Base ` set rows)"
    and n: "last_borehole_page rows = Inr \<lceil>d / 10\<rceil>" and one: "1 \<le> \<lceil>d / 10\<rceil>"
    by blast
  let ?pages = "map (\<lambda>page_num. (page_num, draw_page rows d page_num)) [1..\<lceil>d / 10\<rceil>]"
  have p: "plot_dummy_borehole_log rows = Inr ?pages"
    by (simp add: plot_dummy_borehole_log_def d n)
  have m: "map fst ?pages = [1..\<lceil>d / 10\<rceil>]" by (simp add: comp_def)
  have l: "int (length ?pages) = \<lceil>d / 10\<rceil>" using one by simp
  have "int (length ?pages) = k" if "d = real_of_int k * 10" for k
    using l that by simp
  with p m l show ?thesis unfolding dm by blast
qed

theorem page_count_witness:
  "DUMMY_BOREHOLE_DATA \<noteq> [] \<and> list_all valid_interval DUMMY_BOREHOLE_DATA
   \<and> Max (Depth_Base ` set DUMMY_BOREHOLE_DATA) = 15
   \<and> (\<exists>pages. plot_dummy_borehole_log DUMMY_BOREHOLE_DATA = Inr pages
         \<and> map fst pages = [1, 2] \<and> length pages = 2)
   \<and> (\<exists>pages. plot_dummy_borehole_log
          [\<lparr>Depth_Top = 0, Depth_Base = 20, Geology_Code = ''201'', Description = ''CLAY''\<rparr>]
          = Inr pages \<and> map fst pages = [1, 2] \<and> length pages = 2)"
proof -
  have h1: "DUMMY_BOREHOLE_DATA \<noteq> []" by (simp add: DUMMY_BOREHOLE_DATA_def)
  have h2: "\<forall>r \<in> set DUMMY_BOREHOLE_DATA. valid_interval r"
    by (simp add: DUMMY_BOREHOLE_DATA_def valid_interval_def)
  have m: "Max (Depth_Base ` set DUMMY_BOREHOLE_DATA) = 15"
    by (simp add: DUMMY_BOREHOLE_DATA_def)
  have c: "\<lceil>(15::real) / 10\<rceil> = 2" by (simp add: ceiling_eq_iff)
  have u: "[1..2::int] = [1, 2]" by (simp add: upto.simps)
  from page_count [OF h1 h2] have a:
    "\<exists>pages. plot_dummy_borehole_log DUMMY_BOREHOLE_DATA = Inr pages
         \<and> map fst pages = [1, 2] \<and> length pages = 2"
    unfolding m c u by auto
  let ?rows = "[\<lparr>Depth_Top = 0, Depth_Base = 20, Geology_Code = ''201'', Description = ''CLAY''\<rparr>]"
  have g1: "?rows \<noteq> []" by simp
  have g2: "\<forall>r \<in> set ?rows. valid_interval r" by (simp add: valid_interval_def)
  have gm: "Max (Depth_Base ` set ?rows) = 20" by simp
  have gc: "\<lceil>(20::real) / 10\<rceil> = 2" by simp
  from page_count [OF g1 g2] have b:
    "\<exists>pages. plot_dummy_borehole_log ?rows = Inr pages
         \<and> map fst pages = [1, 2] \<and> length pages = 2"
    unfolding gm gc u by auto
  from h1 h2 m a b show ?thesis unfolding list_all_iff by blast
qed

section \<open>Labels at true boundaries\<close>

lemma clip_top_positive:
  assumes "show_top (clip p i r)"
  shows "seg_Depth_Top (clip p i r) > 0 \<longleftrightarrow> Depth_Top r > 0"
proof
  assume pos: "seg_Depth_Top (clip p i r) > 0"
  show "Depth_Top r > 0"
  proof (rule ccontr)
    assume "\<not> Depth_Top r > 0"
    then have neg: "Depth_Top r \<le> 0" by simp
    with pos have "real_of_int ((p - 1) * 10) > 0" by (simp add: clip_def page_top_def max_def split: if_splits)
    then have "(p - 1) * 10 > 0" by linarith
    then have "(p - 1) * 10 \<ge> 10" by presburger
    then have "page_top p \<ge> 10" unfolding page_top_def by linarith
    with neg assms show False by (simp add: show_top_def clip_def max_def split: if_splits)
  qed
next
  assume "Depth_Top r > 0"
  then show "seg_Depth_Top (clip p i r) > 0" by (simp add: clip_def max_def)
qed

text \<open>
  C4 (amended). For every segment the clipping loop puts on a page: the top depth and
  level labels are drawn exactly when the segment's top is within \<open>10\<^sup>-\<^sup>6\<close> of its
  interval's top depth and that top depth is positive; the base labels are drawn exactly
  when the segment's base is within \<open>10\<^sup>-\<^sup>6\<close> of the interval's base depth. An interval
  that starts at least \<open>10\<^sup>-\<^sup>6\<close> above the page top gets no top label on that page, and
  one that ends at least \<open>10\<^sup>-\<^sup>6\<close> below the page bottom gets no base label on it.
\<close>

theorem label_policy:
  assumes "seg \<in> set (page_intervals rows p)"
  shows "(top_label_prims p seg \<noteq> [] \<longleftrightarrow>
            \<bar>seg_Depth_Top seg - orig_Depth_Top seg\<bar> < 0.000001 \<and> orig_Depth_Top seg > 0)
     \<and> (base_label_prims log_depth p seg \<noteq> [] \<longleftrightarrow>
            \<bar>seg_Depth_Base seg - orig_Depth_Base seg\<bar> < 0.000001)
     \<and> (orig_Depth_Top seg + 0.000001 \<le> page_top p \<longrightarrow> top_label_prims p seg = [])
     \<and> (page_bot p + 0.000001 \<le> orig_Depth_Base seg \<longrightarrow>
           base_label_prims log_depth p seg = [])"
proof -
  from assms obtain r where s: "seg = clip p (orig_idx seg) r"
    using intervals_loop_mem [of seg p 0 rows] by (auto simp: page_intervals_def)
  have o: "orig_Depth_Top seg = Depth_Top r" "orig_Depth_Base seg = Depth_Base r"
    "seg_Depth_Top seg = max (Depth_Top r) (page_top p)"
    "seg_Depth_Base seg = min (Depth_Base r) (page_bot p)"
    by (subst s, simp add: clip_def)+
  have pos: "show_top seg \<Longrightarrow> seg_Depth_Top seg > 0 \<longleftrightarrow> orig_Depth_Top seg > 0"
    using clip_top_positive [of p "orig_idx seg" r] s o(1) by simp
  have top: "top_label_prims p seg \<noteq> [] \<longleftrightarrow>
            \<bar>seg_Depth_Top seg - orig_Depth_Top seg\<bar> < 0.000001 \<and> orig_Depth_Top seg > 0"
    using pos by (auto simp: top_label_prims_def show_top_def Let_def)
  have base: "base_label_prims log_depth p seg \<noteq> [] \<longleftrightarrow>
            \<bar>seg_Depth_Base seg - orig_Depth_Base seg\<bar> < 0.000001"
    by (simp add: base_label_prims_def show_base_def Let_def)
  have t2: "top_label_prims p seg = []" if "orig_Depth_Top seg + 0.000001 \<le> page_top p"
    using that o by (simp add: top_label_prims_def show_top_def Let_def max_def)
  have b2: "base_label_prims log_depth p seg = []"
    if "page_bot p + 0.000001 \<le> orig_Depth_Base seg"
    using that o by (simp add: base_label_prims_def show_base_def Let_def min_def)
  from top base t2 b2 show ?thesis by blast
qed

theorem label_policy_witness:
  "page_intervals
     [\<lparr>Depth_Top = 0, Depth_Base = 7, Geology_Code = ''401'', Description = ''SAND''\<rparr>,
      \<lparr>Depth_Top = 7, Depth_Base = 15, Geology_Code = ''801'', Description = ''MUDSTONE''\<rparr>] 1
   = [\<lparr>orig_idx = 0, seg_Depth_Top = 0, seg_Depth_Base = 7, seg_Geology_Code = ''401'',
       seg_Description = ''SAND'', orig_Depth_Top = 0, orig_Depth_Base = 7\<rparr>,
      \<lparr>orig_idx = 1, seg_Depth_Top = 7, seg_Depth_Base = 10, seg_Geology_Code = ''801'',
       seg_Description = ''MUDSTONE'', orig_Depth_Top = 7, orig_Depth_Base = 15\<rparr>]
   \<and> top_label_prims 1
       \<lparr>orig_idx = 1, seg_Depth_Top = 7, seg_Depth_Base = 10, seg_Geology_Code = ''801'',
        seg_Description = ''MUDSTONE'', orig_Depth_Top = 7, orig_Depth_Base = 15\<rparr> \<noteq> []
   \<and> page_bot 1 + 0.000001 \<le> (15::real)
   \<and> base_label_prims 15 1
       \<lparr>orig_idx = 1, seg_Depth_Top = 7, seg_Depth_Base = 10, seg_Geology_Code = ''801'',
        seg_Description = ''MUDSTONE'', orig_Depth_Top = 7, orig_Depth_Base = 15\<rparr> = []
   \<and> top_label_prims 1
       \<lparr>orig_idx = 0, seg_Depth_Top = 0, seg_Depth_Base = 7, seg_Geology_Code = ''401'',
        seg_Description = ''SAND'', orig_Depth_Top = 0, orig_Depth_Base = 7\<rparr> = []"
proof -
  let ?rows = "[\<lparr>Depth_Top = 0, Depth_Base = 7, Geology_Code = ''401'', Description = ''SAND''\<rparr>,
      \<lparr>Depth_Top = 7, Depth_Base = 15, Geology_Code = ''801'', Description = ''MUDSTONE''\<rparr>]"
  let ?s0 = "\<lparr>orig_idx = 0, seg_Depth_Top = 0, seg_Depth_Base = 7, seg_Geology_Code = ''401'',
       seg_Description = ''SAND'', orig_Depth_Top = 0, orig_Depth_Base = 7\<rparr>"
  let ?s1 = "\<lparr>orig_idx = 1, seg_Depth_Top = 7, seg_Depth_Base = 10, seg_Geology_Code = ''801'',
       seg_Description = ''MUDSTONE'', orig_Depth_Top = 7, orig_Depth_Base = 15\<rparr>"
  have p1: "page_intervals ?rows 1 = [?s0, ?s1]"
    by (simp add: page_intervals_def page_top_def page_bot_def)
  then have m0: "?s0 \<in> set (page_intervals ?rows 1)" and m1: "?s1 \<in> set (page_intervals ?rows 1)"
    by simp_all
  have h: "page_bot 1 + 0.000001 \<le> (15::real)" by (simp add: page_bot_def)
  from label_policy [OF m1, of 15] h
  have a: "top_label_prims 1 ?s1 \<noteq> []" "base_label_prims 15 1 ?s1 = []" by simp_all
  from label_policy [OF m0, of 15] have b: "top_label_prims 1 ?s0 = []" by simp
  from p1 h a b show ?thesis by simp
qed

text \<open>
  The claim as stated, for every interval split by a page boundary, fails within the
  tolerance: the interval from 9.9999995 to 20.0000005 is cut at depths 10 and 20 into
  segments on pages 1, 2 and 3, and page 2 draws both its top label (at depth 10) and its
  base label (at depth 20).
\<close>

theorem split_label_counterexample:
  "page_intervals
     [\<lparr>Depth_Top = 0, Depth_Base = 9.9999995, Geology_Code = ''401'', Description = ''SAND''\<rparr>,
      \<lparr>Depth_Top = 9.9999995, Depth_Base = 20.0000005, Geology_Code = ''801'',
        Description = ''MUDSTONE''\<rparr>] 1
   = [\<lparr>orig_idx = 0, seg_Depth_Top = 0, seg_Depth_Base = 9.9999995, seg_Geology_Code = ''401'',
       seg_Description = ''SAND'', orig_Depth_Top = 0, orig_Depth_Base = 9.9999995\<rparr>,
      \<lparr>orig_idx = 1, seg_Depth_Top = 9.9999995, seg_Depth_Base = 10, seg_Geology_Code = ''801'',
       seg_Description = ''MUDSTONE'', orig_Depth_Top = 9.9999995,
       orig_Depth_Base = 20.0000005\<rparr>]
   \<and> page_intervals
     [\<lparr>Depth_Top = 0, Depth_Base = 9.9999995, Geology_Code = ''401'', Description = ''SAND''\<rparr>,
      \<lparr>Depth_Top = 9.9999995, Depth_Base = 20.0000005, Geology_Code = ''801'',
        Description = ''MUDSTONE''\<rparr>] 2
   = [\<lparr>orig_idx = 1, seg_Depth_Top = 10, seg_Depth_Base = 20, seg_Geology_Code = ''801'',
       seg_Description = ''MUDSTONE'', orig_Depth_Top = 9.9999995,
       orig_Depth_Base = 20.0000005\<rparr>]
   \<and> page_intervals
     [\<lparr>Depth_Top = 0, Depth_Base = 9.9999995, Geology_Code = ''401'', Description = ''SAND''\<rparr>,
      \<lparr>Depth_Top = 9.9999995, Depth_Base = 20.0000005, Geology_Code = ''801'',
        Description = ''MUDSTONE''\<rparr>] 3
   = [\<lparr>orig_idx = 1, seg_Depth_Top = 20, seg_Depth_Base = 20.0000005, seg_Geology_Code = ''801'',
       seg_Description = ''MUDSTONE'', orig_Depth_Top = 9.9999995,
       orig_Depth_Base = 20.0000005\<rparr>]
   \<and> top_label_prims 2
       \<lparr>orig_idx = 1, seg_Depth_Top = 10, seg_Depth_Base = 20, seg_Geology_Code = ''801'',
        seg_Description = ''MUDSTONE'', orig_Depth_Top = 9.9999995,
        orig_Depth_Base = 20.0000005\<rparr>
     = [Text (depth_left + depth_width / 2) 1 (Fixed2 10),
        Text (level_left + level_width / 2) 1 (Fixed2 52.5)]
   \<and> base_label_prims 20.0000005 2
       \<lparr>orig_idx = 1, seg_Depth_Top = 10, seg_Depth_Base = 20, seg_Geology_Code = ''801'',
        seg_Description = ''MUDSTONE'', orig_Depth_Top = 9.9999995,
        orig_Depth_Base = 20.0000005\<rparr>
     = [Text (depth_left + depth_width / 2) 0.025 (Fixed2 20),
        Text (level_left + level_width / 2) 0.025 (Fixed2 42.5)]"
  by (simp add: page_intervals_def page_top_def page_bot_def top_label_prims_def
      base_label_prims_def show_top_def show_base_def depth_to_y_def bottom_line_y_def
      page_depth_range_def ground_level_def Let_def)

section \<open>The end of the borehole on a page\<close>

lemma page_top_plus_10: "page_top p + 10 = page_bot p"
  by (simp add: page_top_def page_bot_def)

lemma draw_intervals_patches:
  "Patch x y w h \<in> set (draw_intervals log_depth p j segs) \<Longrightarrow>
   \<exists>seg \<in> set segs. Patch x y w h \<in> set (bar_prims log_depth p seg)"
  by (induction segs arbitrary: j)
     (auto simp: draw_segment_def top_label_prims_def base_label_prims_def divider_prims_def
        Let_def split: if_splits)

lemma bar_prims_patch:
  "Patch x y w h \<in> set (bar_prims log_depth p seg) \<Longrightarrow>
   y = y_base_clipped log_depth p seg \<and> 0 < h"
  by (auto simp: bar_prims_def Let_def split: if_splits)

lemma y_base_clipped_end:
  "log_depth < page_bot p \<Longrightarrow>
   y_base_clipped log_depth p seg
     = max (depth_to_y p (seg_Depth_Base seg)) (depth_to_y p log_depth)"
  by (simp add: y_base_clipped_def page_top_plus_10 Let_def)

text \<open>
  C5. On a page whose bottom depth is below the end of the borehole (\<open>log_depth < page_bot\<close>)
  the closing line is drawn at the y of the end depth, every lithology bar has its lower
  edge at or above that y (the lower edge is the larger of the base's y and the end's y)
  and a positive height, and the two texts of a bar are anchored at the middle of the bar
  as drawn. On a page with \<open>page_bot \<le> log_depth\<close> the closing line is at \<open>bottom_line_y\<close>.
\<close>

theorem borehole_end_clipping:
  "(log_depth < page_bot p \<longrightarrow>
      closing_line log_depth p =
        [Plot legend_left (desc_left + desc_width)
           (depth_to_y p log_depth) (depth_to_y p log_depth)]
      \<and> (\<forall>x y w h. Patch x y w h \<in> set (draw_intervals log_depth p j segs)
            \<longrightarrow> depth_to_y p log_depth \<le> y \<and> 0 < h)
      \<and> (\<forall>seg. bar_prims log_depth p seg = []
            \<or> bar_prims log_depth p seg =
                (let yb = max (depth_to_y p (seg_Depth_Base seg)) (depth_to_y p log_depth);
                     h = depth_to_y p (seg_Depth_Top seg) - yb
                 in [Patch legend_left yb legend_width h,
                     Text (legend_left + legend_width / 2) (yb + h / 2)
                       (Str (seg_Geology_Code seg)),
                     Text (desc_left + desc_width * 0.02) (yb + h / 2)
                       (Str (seg_Description seg))])))
   \<and> (page_bot p \<le> log_depth \<longrightarrow>
      closing_line log_depth p =
        [Plot legend_left (desc_left + desc_width) bottom_line_y bottom_line_y])"
proof (intro conjI impI allI)
  assume lt: "log_depth < page_bot p"
  then show "closing_line log_depth p =
        [Plot legend_left (desc_left + desc_width)
           (depth_to_y p log_depth) (depth_to_y p log_depth)]"
    by (simp add: closing_line_def closing_line_y_def page_top_plus_10 Let_def)
  show "depth_to_y p log_depth \<le> y" "0 < h"
    if "Patch x y w h \<in> set (draw_intervals log_depth p j segs)" for x y w h
  proof -
    from draw_intervals_patches [OF that] obtain seg
      where "Patch x y w h \<in> set (bar_prims log_depth p seg)" by blast
    from bar_prims_patch [OF this] y_base_clipped_end [OF lt, of seg]
    show "depth_to_y p log_depth \<le> y" "0 < h" by simp_all
  qed
  show "bar_prims log_depth p seg = []
            \<or> bar_prims log_depth p seg =
                (let yb = max (depth_to_y p (seg_Depth_Base seg)) (depth_to_y p log_depth);
                     h = depth_to_y p (seg_Depth_Top seg) - yb
                 in [Patch legend_left yb legend_width h,
                     Text (legend_left + legend_width / 2) (yb + h / 2)
                       (Str (seg_Geology_Code seg)),
                     Text (desc_left + desc_width * 0.02) (yb + h / 2)
                       (Str (seg_Description seg))])" for seg
    using y_base_clipped_end [OF lt, of seg]
    by (simp add: bar_prims_def Let_def field_simps)
next
  assume "page_bot p \<le> log_depth"
  then show "closing_line log_depth p =
        [Plot legend_left (desc_left + desc_width) bottom_line_y bottom_line_y]"
    by (simp add: closing_line_def closing_line_y_def page_top_plus_10 Let_def)
qed

theorem borehole_end_clipping_witness:
  "(15::real) < page_bot 2
   \<and> closing_line 15 2 = [Plot legend_left (desc_left + desc_width) 0.5125 0.5125]
   \<and> bar_prims 15 2 \<lparr>orig_idx = 5, seg_Depth_Top = 10, seg_Depth_Base = 15,
         seg_Geology_Code = ''801'', seg_Description = ''Weathered MUDSTONE, grey, fissured'',
         orig_Depth_Top = 10, orig_Depth_Base = 15\<rparr>
       = [Patch legend_left 0.5125 legend_width 0.4875,
          Text (legend_left + legend_width / 2) 0.75625 (Str ''801''),
          Text (desc_left + desc_width * 0.02) 0.75625
            (Str ''Weathered MUDSTONE, grey, fissured'')]
   \<and> page_bot 1 \<le> (15::real)
   \<and> closing_line 15 1 = [Plot legend_left (desc_left + desc_width) 0.025 0.025]"
proof -
  let ?seg = "\<lparr>orig_idx = 5, seg_Depth_Top = 10, seg_Depth_Base = 15,
         seg_Geology_Code = ''801'', seg_Description = ''Weathered MUDSTONE, grey, fissured'',
         orig_Depth_Top = 10, orig_Depth_Base = 15\<rparr>"
  have h2: "(15::real) < page_bot 2" by (simp add: page_bot_def)
  have h1: "page_bot 1 \<le> (15::real)" by (simp add: page_bot_def)
  have y: "depth_to_y 2 15 = 0.5125" "depth_to_y 2 10 = 1"
    by (simp_all add: depth_to_y_def page_top_def bottom_line_y_def page_depth_range_def)
  have ne: "bar_prims 15 2 ?seg \<noteq> []"
    by (simp add: bar_prims_def y_base_clipped_def y page_top_def Let_def)
  note t2 = borehole_end_clipping [of 15 2 0 "[?seg]", THEN conjunct1, rule_format, OF h2]
  note t1 = borehole_end_clipping [of 15 1 0 "[]", THEN conjunct2, rule_format, OF h1]
  from t2 have a: "closing_line 15 2 = [Plot legend_left (desc_left + desc_width) 0.5125 0.5125]"
    by (simp add: y)
  from t2 [THEN conjunct2, THEN conjunct2, rule_format, of ?seg] ne
  have b: "bar_prims 15 2 ?seg
       = [Patch legend_left 0.5125 legend_width 0.4875,
          Text (legend_left + legend_width / 2) 0.75625 (Str ''801''),
          Text (desc_left + desc_width * 0.02) 0.75625
            (Str ''Weathered MUDSTONE, grey, fissured'')]"
    by (simp add: y Let_def)
  from t1 have c: "closing_line 15 1 = [Plot legend_left (desc_left + desc_width) 0.025 0.025]"
    by (simp add: bottom_line_y_def)
  from h1 h2 a b c show ?thesis by simp
qed

section \<open>The ruler\<close>






section \<open>Facts about splitting, joining and the wrapping loop\<close>

lemma wrap_loop_groups:
  "wrap_loop m ls cur cl ws = ls @ map (str_join '' '') (wrap_groups m cur cl ws)"
  by (induction ws arbitrary: ls cur cl) simp_all

lemma concat_groups: "concat (wrap_groups m cur cl ws) = cur @ ws"
  by (induction ws arbitrary: cur cl) simp_all

lemma groups_nonempty: "[] \<notin> set (wrap_groups m cur cl ws)"
  by (induction ws arbitrary: cur cl) simp_all

lemma groups_over_budget:
  "m < cl \<Longrightarrow> cur \<noteq> [] \<Longrightarrow> cur \<in> set (wrap_groups m cur cl ws)"
  by (cases ws) simp_all

lemma groups_long_word:
  "w \<in> set ws \<Longrightarrow> m < int (length w) \<Longrightarrow> 0 \<le> cl \<Longrightarrow> [w] \<in> set (wrap_groups m cur cl ws)"
proof (induction ws arbitrary: cur cl)
  case Nil
  then show ?case by simp
next
  case (Cons x xs)
  show ?case
  proof (cases "w = x")
    case True
    with Cons.prems have "\<not> cl + int (length x) + 1 \<le> m" by simp
    moreover have "[x] \<in> set (wrap_groups m [x] (int (length x)) xs)"
      using Cons.prems True by (intro groups_over_budget) simp_all
    ultimately show ?thesis using True by simp
  next
    case False
    with Cons.prems have "w \<in> set xs" by simp
    then show ?thesis using Cons.IH Cons.prems(2,3) by simp
  qed
qed

lemma is_space_blank: "is_space CHR '' ''"
  by (simp add: is_space_def)

lemma split_loop_words: "word = [] \<or> is_word word \<Longrightarrow> list_all is_word (split_loop word cs)"
  by (induction cs arbitrary: word) (auto simp: is_word_def)

lemma py_split_words: "list_all is_word (py_split text)"
  by (simp add: py_split_def split_loop_words)

lemma split_loop_word:
  "list_all (\<lambda>c. \<not> is_space c) w \<Longrightarrow> split_loop word (w @ cs) = split_loop (word @ w) cs"
  by (induction w arbitrary: word) simp_all

lemma str_join_Cons:
  "str_join sep (x # xs) = (if xs = [] then x else x @ sep @ str_join sep xs)"
  by (cases xs) simp_all

lemma split_loop_join:
  "list_all is_word ws \<Longrightarrow> ws \<noteq> [] \<Longrightarrow>
   split_loop word (str_join '' '' ws) = (word @ hd ws) # tl ws"
proof (induction ws arbitrary: word)
  case Nil
  then show ?case by simp
next
  case (Cons x xs)
  from Cons.prems have x: "list_all (\<lambda>c. \<not> is_space c) x" "x \<noteq> []"
    by (simp_all add: is_word_def)
  from Cons.prems have rest: "list_all is_word xs" by simp
  show ?case
  proof (cases "xs = []")
    case True
    have "split_loop word (x @ []) = split_loop (word @ x) []"
      using x(1) by (rule split_loop_word)
    with True x(2) show ?thesis by simp
  next
    case False
    have "split_loop word (str_join '' '' (x # xs))
        = split_loop (word @ x) ('' '' @ str_join '' '' xs)"
      using split_loop_word [OF x(1)] False by (simp add: str_join_Cons)
    also have "\<dots> = (word @ x) # split_loop [] (str_join '' '' xs)"
      using x(2) by (simp add: is_space_blank)
    also have "split_loop [] (str_join '' '' xs) = xs"
      using Cons.IH [OF rest False, of "[]"] False by simp
    finally show ?thesis by simp
  qed
qed

lemma py_split_join: "list_all is_word ws \<Longrightarrow> py_split (str_join '' '' ws) = ws"
  by (cases "ws = []") (simp_all add: py_split_def split_loop_join)

lemma str_join_append:
  "xs \<noteq> [] \<Longrightarrow> ys \<noteq> [] \<Longrightarrow> str_join sep (xs @ ys) = str_join sep xs @ sep @ str_join sep ys"
  by (induction xs) (simp_all add: str_join_Cons)

lemma str_join_concat:
  "[] \<notin> set gs \<Longrightarrow> str_join sep (map (str_join sep) gs) = str_join sep (concat gs)"
proof (induction gs)
  case Nil
  then show ?case by simp
next
  case (Cons g gs)
  then have g: "g \<noteq> []" and rest: "[] \<notin> set gs" by auto
  show ?case
  proof (cases "gs = []")
    case True
    then show ?thesis by simp
  next
    case False
    with rest have "concat gs \<noteq> []" by (cases gs) auto
    with g False Cons.IH [OF rest] show ?thesis
      by (simp add: str_join_Cons str_join_append)
  qed
qed

lemma length_str_join_snoc:
  "length (str_join sep (xs @ [w])) =
     (if xs = [] then length w else length (str_join sep xs) + length sep + length w)"
  by (cases "xs = []") (simp_all add: str_join_append)

lemma groups_budget:
  "int (length (str_join '' '' cur)) \<le> cl \<Longrightarrow> (2 \<le> length cur \<longrightarrow> cl \<le> m) \<Longrightarrow>
   g \<in> set (wrap_groups m cur cl ws) \<Longrightarrow> 2 \<le> length g \<Longrightarrow> int (length (str_join '' '' g)) \<le> m"
proof (induction ws arbitrary: cur cl)
  case Nil
  then show ?case by (auto split: if_splits)
next
  case (Cons w ws)
  show ?case
  proof (cases "cl + int (length w) + 1 \<le> m")
    case True
    with Cons.prems(3) have g: "g \<in> set (wrap_groups m (cur @ [w]) (cl + int (length w) + 1) ws)"
      by simp
    have "int (length (str_join '' '' (cur @ [w]))) \<le> cl + int (length w) + 1"
      using Cons.prems(1) by (simp add: length_str_join_snoc)
    from Cons.IH [OF this _ g Cons.prems(4)] True show ?thesis by simp
  next
    case False
    with Cons.prems(3) have "g = cur \<or> g \<in> set (wrap_groups m [w] (int (length w)) ws)"
      by (auto split: if_splits)
    then show ?thesis
    proof
      assume "g = cur"
      with Cons.prems(1,2,4) show ?thesis by simp
    next
      assume "g \<in> set (wrap_groups m [w] (int (length w)) ws)"
      from Cons.IH [OF _ _ this Cons.prems(4)] show ?thesis by simp
    qed
  qed
qed

lemma groups_words:
  assumes "list_all is_word cur" and "list_all is_word ws" and "g \<in> set (wrap_groups m cur cl ws)"
  shows "list_all is_word g"
proof -
  from assms(3) have "set g \<subseteq> set (concat (wrap_groups m cur cl ws))" by auto
  then have "set g \<subseteq> set cur \<union> set ws" by (simp add: concat_groups)
  with assms(1,2) show ?thesis by (auto simp: list_all_iff)
qed

lemma split_loop_length:
  "w \<in> set (split_loop word cs) \<Longrightarrow> length w \<le> length word + length cs"
  by (induction cs arbitrary: word) (fastforce split: if_splits)+

lemma py_split_length: "w \<in> set (py_split text) \<Longrightarrow> length w \<le> length text"
  using split_loop_length [of w "[]" "text"] by (simp add: py_split_def)

lemma wrap_lines_groups:
  "wrap_lines text m = map (str_join '' '') (wrap_groups m [] 0 (py_split text))"
  by (simp add: wrap_lines_def wrap_loop_groups)

section \<open>The greedy rule\<close>

text \<open>
  What holds of the wrapper for every text and every \<open>max_chars\<close>: the lines are the
  groups of the loop joined by blanks, the groups together are the words of the text in
  their order, a word longer than \<open>max_chars\<close> is a line of its own, and a text of at most
  \<open>max_chars\<close> characters is returned unchanged.
\<close>

lemma wrap_words_kept:
  "wrap text m = (if int (length text) \<le> m then [text]
                  else map (str_join '' '') (wrap_groups m [] 0 (py_split text)))
   \<and> wrap_text text m = (if int (length text) \<le> m then text
                         else str_join [CHR 0x0A] (wrap text m))
   \<and> concat (wrap_groups m [] 0 (py_split text)) = py_split text
   \<and> (\<forall>w \<in> set (py_split text). m < int (length w) \<longrightarrow>
         [w] \<in> set (wrap_groups m [] 0 (py_split text)) \<and> w \<in> set (wrap text m))
   \<and> (int (length text) \<le> m \<longrightarrow> wrap_text text m = text \<and> wrap text m = [text])"
proof (intro conjI ballI impI)
  show w: "wrap text m = (if int (length text) \<le> m then [text]
                  else map (str_join '' '') (wrap_groups m [] 0 (py_split text)))"
    by (simp add: wrap_def wrap_lines_groups)
  show "wrap_text text m = (if int (length text) \<le> m then text
                         else str_join [CHR 0x0A] (wrap text m))"
    by (simp add: wrap_text_def wrap_def)
  show "concat (wrap_groups m [] 0 (py_split text)) = py_split text"
    by (simp add: concat_groups)
  show "wrap_text text m = text" if "int (length text) \<le> m"
    using that by (simp add: wrap_text_def)
  show "wrap text m = [text]" if "int (length text) \<le> m"
    using that by (simp add: wrap_def)
  fix w assume mem: "w \<in> set (py_split text)" and long: "m < int (length w)"
  show alone: "[w] \<in> set (wrap_groups m [] 0 (py_split text))"
    using mem long by (intro groups_long_word) simp_all
  from py_split_length [OF mem] long have "\<not> int (length text) \<le> m" by simp
  with w have "wrap text m = map (str_join '' '') (wrap_groups m [] 0 (py_split text))" by simp
  moreover have "str_join '' '' [w] = w" by simp
  ultimately show "w \<in> set (wrap text m)" using alone by (metis image_eqI list.set_map)
qed

text \<open>
  C8. The wrapper does not follow the greedy rule on its first line. With \<open>max_chars = 5\<close>
  the text \<open>''ab cd efg''\<close> (nine characters) goes through the loop; the line \<open>''ab''\<close> has
  length 2 and \<open>2 + len(''cd'') + 1 = 5 \<le> 5\<close>, so by the rule \<open>''cd''\<close> joins it and the lines
  are \<open>''ab cd''\<close> and \<open>''efg''\<close>. The source has counted the first word of the first line
  with a separator, its \<^verbatim>\<open>current_length\<close> is 3 where the line has 2 characters, and it
  breaks after \<open>''ab''\<close>: the lines are \<open>''ab''\<close>, \<open>''cd''\<close> and \<open>''efg''\<close>. On a later line the
  counter restarts at the word's length and a two-word line of exactly 5 characters is
  accepted (\<open>''cd ef''\<close> in \<open>''ab cd ef''\<close>).
\<close>

theorem greedy_first_line:
  "py_split ''ab cd efg'' = [''ab'', ''cd'', ''efg'']
   \<and> int (length ''ab'') + int (length ''cd'') + 1 \<le> 5
   \<and> map (str_join '' '') (greedy_rule 5 [] (py_split ''ab cd efg'')) = [''ab cd'', ''efg'']
   \<and> wrap ''ab cd efg'' 5 = [''ab'', ''cd'', ''efg'']
   \<and> wrap_text ''ab cd efg'' 5
       = [CHR ''a'', CHR ''b'', CHR 0x0A, CHR ''c'', CHR ''d'', CHR 0x0A,
          CHR ''e'', CHR ''f'', CHR ''g'']
   \<and> wrap ''ab cd ef'' 5 = [''ab'', ''cd ef'']"
  by (simp add: wrap_def wrap_text_def wrap_lines_def py_split_def is_space_def)

section \<open>The line budget\<close>

text \<open>
  C10. Every line of the result that holds two or more words is at most \<open>max_chars\<close>
  long, the single spaces between its words counted; and a line longer than \<open>max_chars\<close>
  holds exactly one word.
\<close>

theorem line_budget:
  "\<forall>l \<in> set (wrap text m).
     (2 \<le> length (py_split l) \<longrightarrow> int (length l) \<le> m)
     \<and> (m < int (length l) \<longrightarrow> length (py_split l) = 1)"
proof
  fix l assume l: "l \<in> set (wrap text m)"
  show "(2 \<le> length (py_split l) \<longrightarrow> int (length l) \<le> m)
     \<and> (m < int (length l) \<longrightarrow> length (py_split l) = 1)"
  proof (cases "int (length text) \<le> m")
    case True
    with l show ?thesis by (simp add: wrap_def)
  next
    case False
    with l obtain g where g: "g \<in> set (wrap_groups m [] 0 (py_split text))"
      and lg: "l = str_join '' '' g"
      by (auto simp: wrap_def wrap_lines_groups)
    have words: "list_all is_word g"
      using groups_words [OF _ py_split_words g] by simp
    then have sp: "py_split l = g" unfolding lg by (rule py_split_join)
    from g groups_nonempty [of m "[]" 0 "py_split text"] have ne: "g \<noteq> []" by auto
    have budget: "int (length l) \<le> m" if "2 \<le> length g"
      unfolding lg using groups_budget [OF _ _ g that] by simp
    have "length g = 1" if "m < int (length l)"
    proof -
      have "length g < 2"
      proof (rule ccontr)
        assume "\<not> length g < 2"
        then have "2 \<le> length g" by simp
        from budget [OF this] that show False by simp
      qed
      moreover from ne have "0 < length g" by simp
      ultimately show ?thesis by linarith
    qed
    with budget sp show ?thesis by simp
  qed
qed

theorem line_budget_witness:
  "wrap ''ab cd ef'' 5 = [''ab'', ''cd ef'']
   \<and> py_split ''cd ef'' = [''cd'', ''ef'']
   \<and> int (length ''cd ef'') \<le> 5
   \<and> wrap ''a abcdefgh b'' 5 = [''a'', ''abcdefgh'', ''b'']
   \<and> (5::int) < int (length ''abcdefgh'')
   \<and> length (py_split ''abcdefgh'') = 1"
proof -
  have w1: "wrap ''ab cd ef'' 5 = [''ab'', ''cd ef'']"
    by (simp add: wrap_def wrap_lines_def py_split_def is_space_def)
  have w2: "wrap ''a abcdefgh b'' 5 = [''a'', ''abcdefgh'', ''b'']"
    by (simp add: wrap_def wrap_lines_def py_split_def is_space_def)
  have s: "py_split ''cd ef'' = [''cd'', ''ef'']" by (simp add: py_split_def is_space_def)
  have long: "(5::int) < int (length ''abcdefgh'')" by simp
  from line_budget [of "''ab cd ef''" 5] w1 s have a: "int (length ''cd ef'') \<le> 5"
    by simp
  from line_budget [of "''a abcdefgh b''" 5] w2 long have b: "length (py_split ''abcdefgh'') = 1"
    by simp
  from w1 w2 s long a b show ?thesis by simp
qed

section \<open>Wrapping again\<close>

text \<open>
  Joining the lines with single spaces and wrapping again gives the same lines when the
  text was returned unchanged, when the joined text is still longer than \<open>max_chars\<close>, or
  when there was only one line.
\<close>

lemma rewrap_idempotent:
  assumes "int (length text) \<le> m \<or> m < int (length (str_join '' '' (wrap text m)))
     \<or> length (wrap text m) = 1"
  shows "wrap (str_join '' '' (wrap text m)) m = wrap text m"
proof (cases "int (length text) \<le> m")
  case True
  then show ?thesis by (simp add: wrap_def)
next
  case False
  let ?gs = "wrap_groups m [] 0 (py_split text)"
  let ?r = "str_join '' '' (wrap text m)"
  from False have w: "wrap text m = map (str_join '' '') ?gs"
    by (simp add: wrap_def wrap_lines_groups)
  show ?thesis
  proof (cases "m < int (length ?r)")
    case True
    have "?r = str_join '' '' (concat ?gs)"
      unfolding w using groups_nonempty by (rule str_join_concat)
    then have "?r = str_join '' '' (py_split text)" by (simp add: concat_groups)
    then have "py_split ?r = py_split text" by (simp add: py_split_join py_split_words)
    with True w show ?thesis by (simp add: wrap_def wrap_lines_groups)
  next
    case short: False
    with False assms have "length (wrap text m) = 1" by simp
    then obtain l where l: "wrap text m = [l]" by (cases "wrap text m") auto
    with short show ?thesis by (simp add: wrap_def)
  qed
qed

text \<open>
  C9. Wrapping is not idempotent in the remaining case. The text \<open>''ab cd ''\<close> has six
  characters, so with \<open>max_chars = 5\<close> it goes through the loop: the counter stands at 3
  after \<open>''ab''\<close> (the first word of the first line is counted with a separator), so
  \<open>''cd''\<close> does not join and the lines are \<open>''ab''\<close> and \<open>''cd''\<close>. Joined they are
  \<open>''ab cd''\<close>, five characters, which the function returns unchanged: one line. The same
  happens at the default width 40 with a description of 40 characters and a trailing
  space.
\<close>

theorem rewrap_trailing_space:
  "wrap ''ab cd '' 5 = [''ab'', ''cd'']
   \<and> str_join '' '' (wrap ''ab cd '' 5) = ''ab cd''
   \<and> wrap (str_join '' '' (wrap ''ab cd '' 5)) 5 = [''ab cd'']
   \<and> wrap_text ''ab cd '' 5 = [CHR ''a'', CHR ''b'', CHR 0x0A, CHR ''c'', CHR ''d'']
   \<and> wrap_text ''ab cd'' 5 = ''ab cd''
   \<and> length ''Medium dense fine SAND with some gravels '' = 41
   \<and> wrap ''Medium dense fine SAND with some gravels '' 40
       = [''Medium dense fine SAND with some'', ''gravels'']
   \<and> wrap (str_join '' '' (wrap ''Medium dense fine SAND with some gravels '' 40)) 40
       = [''Medium dense fine SAND with some gravels'']"
  by (simp add: wrap_def wrap_text_def wrap_lines_def py_split_def is_space_def)


end
